theory Spec2Isabelle
  imports Main "HOL-Library.Word"
begin

section \<open>Data model of the wallet\<close>

text \<open>
  The wallet code of \<^verbatim>\<open>src/types/block_bench_test.go\<close> (package wallet, lines 99-182)
  uses types whose declarations live in other packages. They are modelled here from the
  way the code uses their fields.
\<close>

text \<open>
  Modelled from the spec: \<^verbatim>\<open>modules.DiffDirection\<close> with its two values
  \<^verbatim>\<open>modules.DiffApply\<close> and \<^verbatim>\<open>modules.DiffRevert\<close> (the declaration is not among the
  sources; the spec calls them the forward and the reverted direction).
\<close>

datatype DiffDirection = DiffApply | DiffRevert

text \<open>
  Addresses, output identifiers and currency values are opaque to the wallet code: it
  only uses them as map keys and copies them. Natural numbers stand for them.
\<close>

type_synonym UnlockHash = nat
type_synonym SiacoinOutputID = nat
type_synonym Currency = nat
type_synonym Block = nat
type_synonym Transaction = nat

record SiacoinOutput =
  Value :: Currency
  UnlockHash :: UnlockHash

record SiacoinOutputDiff =
  Direction :: DiffDirection
  ID :: SiacoinOutputID
  SiacoinOutput :: SiacoinOutput

text \<open>The three fields of \<^verbatim>\<open>modules.ConsensusChange\<close> that the wallet reads.\<close>

record ConsensusChange =
  RevertedBlocks :: "Block list"
  AppliedBlocks :: "Block list"
  SiacoinOutputDiffs :: "SiacoinOutputDiff list"

text \<open>
  \<^verbatim>\<open>knownOutput\<close>, as built at lines 133-139. The fields \<^verbatim>\<open>id\<close>, \<^verbatim>\<open>output\<close> and
  \<^verbatim>\<open>age\<close> carry a suffix here; \<^verbatim>\<open>age\<close> is a Go \<^verbatim>\<open>int\<close>.
\<close>

record knownOutput =
  id_ko :: SiacoinOutputID
  output_ko :: SiacoinOutput
  spendable :: bool
  age_ko :: "64 word"

text \<open>
  Modelled from the spec: the registry entry \<^verbatim>\<open>key\<close> of one address and the
  \<^verbatim>\<open>Wallet\<close> itself (their declarations are not among the sources). The code reaches
  a \<^verbatim>\<open>*knownOutput\<close> through \<^verbatim>\<open>w.keys[addr].outputs[id]\<close>. The spec gives every
  registry entry to the wallet alone and every ledger entry to its registry entry alone,
  so the two pointer-valued Go maps are nested maps of values, and a write through the
  pointer is an update of the nested map. A wallet of this model has no nil pointer
  stored under a key of either map and no registry entry whose \<^verbatim>\<open>outputs\<close> map is
  unallocated: the one insertion of the code (line 140) stores a fresh pointer.

  \<^verbatim>\<open>age\<close> is the operand of \<^verbatim>\<open>w.age -= len(...)\<close>, hence a Go \<^verbatim>\<open>int\<close>: a 64-bit
  word whose arithmetic wraps around.

  \<^verbatim>\<open>notified\<close> records what \<^verbatim>\<open>notifySubscribers\<close> does: see below.
\<close>

record key =
  outputs :: "SiacoinOutputID \<rightharpoonup> knownOutput"

type_synonym ledger_view =
  "(UnlockHash \<rightharpoonup> key) \<times> SiacoinOutputDiff list \<times> 64 word"

record Wallet =
  keys :: "UnlockHash \<rightharpoonup> key"
  unconfirmedDiffs :: "SiacoinOutputDiff list"
  age :: "64 word"
  notified :: "ledger_view list"

text \<open>
  The two ways in which \<^verbatim>\<open>applyDiff\<close> stops the goroutine: the explicit
  \<^verbatim>\<open>panic\<close> of line 145 and the run-time panic of a write through a nil pointer.
\<close>

datatype error = Panic string | NilPointerDereference

text \<open>
  A panic leaves the wallet as the writes before it made it: the deferred unlock of line
  158 runs, and a caller that recovers finds that wallet. A call that panics therefore
  yields the error together with the wallet at the panic.
\<close>

type_synonym 'a outcome = "(error \<times> Wallet) + 'a"

section \<open>The Diff Applier\<close>

text \<open>
  The write \<^verbatim>\<open>key.outputs[i] = ko\<close>, and the write to a field of the
  \<^verbatim>\<open>*knownOutput\<close> stored there, seen from the wallet: \<^verbatim>\<open>key\<close> is the registry
  entry found under address \<open>a\<close>.
\<close>

definition storeOutput ::
  "Wallet \<Rightarrow> UnlockHash \<Rightarrow> key \<Rightarrow> SiacoinOutputID \<Rightarrow> knownOutput \<Rightarrow> Wallet" where
  "storeOutput w a k i ko = w\<lparr>keys := (keys w)(a \<mapsto> k\<lparr>outputs := (outputs k)(i \<mapsto> ko)\<rparr>)\<rparr>"

text \<open>
  \<^verbatim>\<open>applyDiff\<close>, lines 111-151. The first argument is the constant
  \<^verbatim>\<open>build.DEBUG\<close>, which is declared outside the sources.

  In the else branch a missing entry makes \<^verbatim>\<open>key.outputs[scod.ID]\<close> the zero value of
  \<^verbatim>\<open>*knownOutput\<close>, a nil pointer: with \<^verbatim>\<open>DEBUG\<close> the code panics at line 145, and
  without it the assignment of line 149 dereferences nil.
\<close>

definition applyDiff ::
  "bool \<Rightarrow> SiacoinOutputDiff \<Rightarrow> DiffDirection \<Rightarrow> Wallet \<Rightarrow> Wallet outcome" where
  "applyDiff DEBUG scod dir w =
     (case keys w (UnlockHash (SiacoinOutput scod)) of
        None \<Rightarrow> Inr w
      | Some k \<Rightarrow>
          if Direction scod = dir then
            (case outputs k (ID scod) of
               Some out \<Rightarrow>
                 if \<not> spendable out
                 then Inr (storeOutput w (UnlockHash (SiacoinOutput scod)) k (ID scod)
                             (out\<lparr>spendable := True\<rparr>))
                 else Inr w
             | None \<Rightarrow>
                 Inr (storeOutput w (UnlockHash (SiacoinOutput scod)) k (ID scod)
                        \<lparr>id_ko = ID scod, output_ko = SiacoinOutput scod,
                         spendable = True, age_ko = 0\<rparr>))
          else if DEBUG \<and> outputs k (ID scod) = None
            then Inl (Panic ''trying to delete an output that doesn't exist?'', w)
          else
            (case outputs k (ID scod) of
               None \<Rightarrow> Inl (NilPointerDereference, w)
             | Some out \<Rightarrow>
                 Inr (storeOutput w (UnlockHash (SiacoinOutput scod)) k (ID scod)
                        (out\<lparr>spendable := False\<rparr>))))"

text \<open>
  The loop \<^verbatim>\<open>for _, diff := range ds { w.applyDiff(diff, dir) }\<close> of lines 162-164,
  167-169 and 173-175: a panic in one iteration ends the loop.
\<close>

fun applyDiffs ::
  "bool \<Rightarrow> SiacoinOutputDiff list \<Rightarrow> DiffDirection \<Rightarrow> Wallet \<Rightarrow> Wallet outcome" where
  "applyDiffs DEBUG [] dir w = Inr w"
| "applyDiffs DEBUG (diff # ds) dir w =
     (case applyDiff DEBUG diff dir w of
        Inl e \<Rightarrow> Inl e
      | Inr w' \<Rightarrow> applyDiffs DEBUG ds dir w')"

section \<open>The Update Coordinator\<close>

text \<open>
  Modelled from the spec: \<^verbatim>\<open>notifySubscribers\<close> (its body is not among the sources).
  The spec makes it a notification without payload after which the subscribers read the
  ledger themselves; \<^verbatim>\<open>notified\<close> lists, one per notification, what they find.
\<close>

definition viewOf :: "Wallet \<Rightarrow> ledger_view" where
  "viewOf w = (keys w, unconfirmedDiffs w, age w)"

definition notifySubscribers :: "Wallet \<Rightarrow> Wallet" where
  "notifySubscribers w = w\<lparr>notified := notified w @ [viewOf w]\<rparr>"

text \<open>
  \<^verbatim>\<open>ReceiveTransactionPoolUpdate\<close>, lines 156-182. The second argument is the
  transaction list that the code binds to \<^verbatim>\<open>_\<close>. \<^verbatim>\<open>len\<close> yields a Go \<^verbatim>\<open>int\<close>. The
  mutex of lines 157-158 makes the body one critical section; the model is of that body.
\<close>

definition ReceiveTransactionPoolUpdate ::
  "bool \<Rightarrow> ConsensusChange \<Rightarrow> Transaction list \<Rightarrow> SiacoinOutputDiff list \<Rightarrow> Wallet
     \<Rightarrow> Wallet outcome" where
  "ReceiveTransactionPoolUpdate DEBUG cc txns unconfirmedSiacoinDiffs w =
     (case applyDiffs DEBUG (unconfirmedDiffs w) DiffRevert w of
        Inl e \<Rightarrow> Inl e
      | Inr w1 \<Rightarrow>
     (case applyDiffs DEBUG (SiacoinOutputDiffs cc) DiffApply w1 of
        Inl e \<Rightarrow> Inl e
      | Inr w2 \<Rightarrow>
     (let w3 = w2\<lparr>unconfirmedDiffs := unconfirmedSiacoinDiffs\<rparr> in
      case applyDiffs DEBUG (unconfirmedDiffs w3) DiffApply w3 of
        Inl e \<Rightarrow> Inl e
      | Inr w4 \<Rightarrow>
     (let w5 = w4\<lparr>age := age w4 - of_nat (length (RevertedBlocks cc))\<rparr>;
          w6 = w5\<lparr>age := age w5 + of_nat (length (AppliedBlocks cc))\<rparr>
      in Inr (notifySubscribers w6)))))"

section \<open>Reading the ledger\<close>

text \<open>
  The ledger entry of output \<open>i\<close> under address \<open>a\<close>, if the wallet has one, and whether
  the wallet counts the output as spendable.
\<close>

definition entryOf :: "Wallet \<Rightarrow> UnlockHash \<Rightarrow> SiacoinOutputID \<Rightarrow> knownOutput option" where
  "entryOf w a i = (case keys w a of None \<Rightarrow> None | Some k \<Rightarrow> outputs k i)"

definition isSpendable :: "Wallet \<Rightarrow> UnlockHash \<Rightarrow> SiacoinOutputID \<Rightarrow> bool" where
  "isSpendable w a i = (case entryOf w a i of None \<Rightarrow> False | Some e \<Rightarrow> spendable e)"

text \<open>
  Every diff of the list that is for an address of the wallet has its ledger entry: what
  a pass over the list needs to go through without a panic.
\<close>

definition entriesPresent :: "SiacoinOutputDiff list \<Rightarrow> Wallet \<Rightarrow> bool" where
  "entriesPresent ds w =
     (\<forall>d\<in>set ds. keys w (UnlockHash (SiacoinOutput d)) \<noteq> None \<longrightarrow>
        entryOf w (UnlockHash (SiacoinOutput d)) (ID d) \<noteq> None)"

text \<open>A diff is for output \<open>i\<close> of address \<open>a\<close>; the last diff of a list that is.\<close>

definition touches :: "UnlockHash \<Rightarrow> SiacoinOutputID \<Rightarrow> SiacoinOutputDiff \<Rightarrow> bool" where
  "touches a i d = (UnlockHash (SiacoinOutput d) = a \<and> ID d = i)"

fun lastDiffFor ::
  "UnlockHash \<Rightarrow> SiacoinOutputID \<Rightarrow> SiacoinOutputDiff list \<Rightarrow> SiacoinOutputDiff option" where
  "lastDiffFor a i [] = None"
| "lastDiffFor a i (d # ds) =
     (case lastDiffFor a i ds of
        Some d' \<Rightarrow> Some d'
      | None \<Rightarrow> if touches a i d then Some d else None)"

section \<open>The five steps of the spec\<close>

text \<open>
  The steps of the Update Coordinator in the words of the spec (section 4.2), each one a
  function of its own: Unwind, Confirm, Re-overlay, Age adjustment, Notify. A step that
  calls the Diff Applier for every diff of a list is a left fold that stops at the
  first panic.
\<close>

definition andThen :: "'a outcome \<Rightarrow> ('a \<Rightarrow> 'b outcome) \<Rightarrow> 'b outcome" where
  "andThen r f = (case r of Inl e \<Rightarrow> Inl e | Inr x \<Rightarrow> f x)"

definition forEvery ::
  "bool \<Rightarrow> DiffDirection \<Rightarrow> SiacoinOutputDiff list \<Rightarrow> Wallet \<Rightarrow> Wallet outcome" where
  "forEvery DEBUG dir ds w = foldl (\<lambda>r d. andThen r (applyDiff DEBUG d dir)) (Inr w) ds"

definition stepUnwind :: "bool \<Rightarrow> Wallet \<Rightarrow> Wallet outcome" where
  "stepUnwind DEBUG w = forEvery DEBUG DiffRevert (unconfirmedDiffs w) w"

definition stepConfirm :: "bool \<Rightarrow> SiacoinOutputDiff list \<Rightarrow> Wallet \<Rightarrow> Wallet outcome" where
  "stepConfirm DEBUG confirmedDiffs w = forEvery DEBUG DiffApply confirmedDiffs w"

definition stepReoverlay :: "bool \<Rightarrow> SiacoinOutputDiff list \<Rightarrow> Wallet \<Rightarrow> Wallet outcome" where
  "stepReoverlay DEBUG newUnconfirmedDiffs w =
     forEvery DEBUG DiffApply newUnconfirmedDiffs (w\<lparr>unconfirmedDiffs := newUnconfirmedDiffs\<rparr>)"

definition stepAge :: "nat \<Rightarrow> nat \<Rightarrow> Wallet \<Rightarrow> Wallet" where
  "stepAge revertedBlockCount appliedBlockCount w =
     w\<lparr>age := age w - of_nat revertedBlockCount + of_nat appliedBlockCount\<rparr>"

definition reconcileSteps ::
  "bool \<Rightarrow> SiacoinOutputDiff list \<Rightarrow> nat \<Rightarrow> nat \<Rightarrow> SiacoinOutputDiff list \<Rightarrow> Wallet
     \<Rightarrow> Wallet outcome" where
  "reconcileSteps DEBUG confirmedDiffs revertedBlockCount appliedBlockCount newUnconfirmedDiffs w =
     andThen (andThen (andThen (stepUnwind DEBUG w)
                               (stepConfirm DEBUG confirmedDiffs))
                      (stepReoverlay DEBUG newUnconfirmedDiffs))
             (\<lambda>w'. Inr (notifySubscribers (stepAge revertedBlockCount appliedBlockCount w')))"



text \<open>A consensus change with the given confirmed diffs and no reverted or applied block.\<close>

definition onlyDiffs :: "SiacoinOutputDiff list \<Rightarrow> ConsensusChange" where
  "onlyDiffs C = \<lparr>RevertedBlocks = [], AppliedBlocks = [], SiacoinOutputDiffs = C\<rparr>"

text \<open>
  What the retention invariant compares: every entry of \<open>w\<close> is still an entry of \<open>w'\<close>, under
  the same address and identifier, with the identity, the payload and the age it had.
\<close>

definition retains :: "Wallet \<Rightarrow> Wallet \<Rightarrow> bool" where
  "retains w w' =
     (\<forall>a i e. entryOf w a i = Some e \<longrightarrow>
        (\<exists>e'. entryOf w' a i = Some e' \<and> id_ko e' = id_ko e \<and> output_ko e' = output_ko e
               \<and> age_ko e' = age_ko e))"

section \<open>Example data\<close>

text \<open>
  A wallet that controls address 1 alone, with the given entries and Pending Diff Set; an
  "output created" diff and an "output spent" diff for output \<open>i\<close> of that address, an
  "output created" diff for output \<open>i\<close> of address 2, and the entry of the wallet for
  output \<open>i\<close> of address 1.
\<close>

definition created :: "SiacoinOutputID \<Rightarrow> SiacoinOutputDiff" where
  "created i = \<lparr>Direction = DiffApply, ID = i, SiacoinOutput = \<lparr>Value = 10, UnlockHash = 1\<rparr>\<rparr>"

definition spent :: "SiacoinOutputID \<Rightarrow> SiacoinOutputDiff" where
  "spent i = \<lparr>Direction = DiffRevert, ID = i, SiacoinOutput = \<lparr>Value = 10, UnlockHash = 1\<rparr>\<rparr>"

definition createdElsewhere :: "SiacoinOutputID \<Rightarrow> SiacoinOutputDiff" where
  "createdElsewhere i =
     \<lparr>Direction = DiffApply, ID = i, SiacoinOutput = \<lparr>Value = 10, UnlockHash = 2\<rparr>\<rparr>"

definition seen :: "SiacoinOutputID \<Rightarrow> bool \<Rightarrow> knownOutput" where
  "seen i s = \<lparr>id_ko = i, output_ko = \<lparr>Value = 10, UnlockHash = 1\<rparr>, spendable = s, age_ko = 0\<rparr>"

definition walletWith ::
  "(SiacoinOutputID \<rightharpoonup> knownOutput) \<Rightarrow> SiacoinOutputDiff list \<Rightarrow> Wallet" where
  "walletWith os pending =
     \<lparr>keys = [1 \<mapsto> \<lparr>outputs = os\<rparr>], unconfirmedDiffs = pending, age = 0, notified = []\<rparr>"

section \<open>Writes to one ledger entry\<close>

lemma entryOf_storeOutput:
  "keys w a = Some k \<Longrightarrow>
   entryOf (storeOutput w a k i ko) a' i' = (if a' = a \<and> i' = i then Some ko else entryOf w a' i')"
  by (simp add: entryOf_def storeOutput_def)

lemma keys_storeOutput:
  "keys (storeOutput w a k i ko) a = Some (k\<lparr>outputs := (outputs k)(i \<mapsto> ko)\<rparr>)"
  by (simp add: storeOutput_def)

lemma keys_storeOutput_dom:
  "keys w a = Some k \<Longrightarrow> dom (keys (storeOutput w a k i ko)) = dom (keys w)"
  by (auto simp add: storeOutput_def)

lemma storeOutput_fields:
  "unconfirmedDiffs (storeOutput w a k i ko) = unconfirmedDiffs w"
  "age (storeOutput w a k i ko) = age w"
  "notified (storeOutput w a k i ko) = notified w"
  by (simp_all add: storeOutput_def)

lemma storeOutput_same:
  "keys w a = Some k \<Longrightarrow> outputs k i = Some e \<Longrightarrow> storeOutput w a k i e = w"
  by (simp add: storeOutput_def fun_upd_idem)

lemma storeOutput_twice:
  "storeOutput (storeOutput w a k i e) a (k\<lparr>outputs := (outputs k)(i \<mapsto> e)\<rparr>) i e'
     = storeOutput w a k i e'"
  by (simp add: storeOutput_def)

text \<open>
  With an entry at hand \<^verbatim>\<open>applyDiff\<close> returns, and all it does is to set the flag of
  that entry: to true where the diff's direction is the direction of the pass, to false
  where it is not.
\<close>

lemma applyDiff_match_entry:
  assumes "keys w (UnlockHash (SiacoinOutput d)) = Some k" and "outputs k (ID d) = Some e"
    and "Direction d = dir"
  shows "applyDiff DEBUG d dir w
     = Inr (storeOutput w (UnlockHash (SiacoinOutput d)) k (ID d) (e\<lparr>spendable := True\<rparr>))"
proof (cases "spendable e")
  case True
  then have "e\<lparr>spendable := True\<rparr> = e" by simp
  with assms True show ?thesis by (simp add: applyDiff_def storeOutput_same)
next
  case False
  with assms show ?thesis by (simp add: applyDiff_def)
qed

lemma applyDiff_mismatch_entry:
  assumes "keys w (UnlockHash (SiacoinOutput d)) = Some k" and "outputs k (ID d) = Some e"
    and "Direction d \<noteq> dir"
  shows "applyDiff DEBUG d dir w
     = Inr (storeOutput w (UnlockHash (SiacoinOutput d)) k (ID d) (e\<lparr>spendable := False\<rparr>))"
  using assms by (simp add: applyDiff_def)

lemma applyDiff_entry:
  assumes "keys w (UnlockHash (SiacoinOutput d)) = Some k" and "outputs k (ID d) = Some e"
  shows "applyDiff DEBUG d dir w
     = Inr (storeOutput w (UnlockHash (SiacoinOutput d)) k (ID d)
              (e\<lparr>spendable := (Direction d = dir)\<rparr>))"
  using applyDiff_match_entry [OF assms] applyDiff_mismatch_entry [OF assms]
  by (cases "Direction d = dir") simp_all

section \<open>What a call leaves alone\<close>

text \<open>
  A call of \<^verbatim>\<open>applyDiff\<close> that returns has written to at most one ledger entry, under
  the address of the diff, and to nothing else.
\<close>

lemma applyDiff_Inr_cases:
  assumes "applyDiff DEBUG d dir w = Inr w'"
  obtains "w' = w"
  | k ko where "keys w (UnlockHash (SiacoinOutput d)) = Some k"
      and "w' = storeOutput w (UnlockHash (SiacoinOutput d)) k (ID d) ko"
  using assms
  by (auto simp add: applyDiff_def split: option.splits if_splits)

lemma applyDiff_fields:
  assumes "applyDiff DEBUG d dir w = Inr w'"
  shows "unconfirmedDiffs w' = unconfirmedDiffs w" and "age w' = age w"
    and "notified w' = notified w" and "dom (keys w') = dom (keys w)"
proof -
  from assms show "unconfirmedDiffs w' = unconfirmedDiffs w"
    by (rule applyDiff_Inr_cases) (simp_all add: storeOutput_fields)
  from assms show "age w' = age w"
    by (rule applyDiff_Inr_cases) (simp_all add: storeOutput_fields)
  from assms show "notified w' = notified w"
    by (rule applyDiff_Inr_cases) (simp_all add: storeOutput_fields)
  from assms show "dom (keys w') = dom (keys w)"
    by (rule applyDiff_Inr_cases) (simp_all add: keys_storeOutput_dom)
qed

lemma applyDiffs_fields:
  assumes "applyDiffs DEBUG ds dir w = Inr w'"
  shows "unconfirmedDiffs w' = unconfirmedDiffs w \<and> age w' = age w
    \<and> notified w' = notified w \<and> dom (keys w') = dom (keys w)"
  using assms
proof (induction ds arbitrary: w)
  case Nil
  then show ?case by simp
next
  case (Cons d ds)
  from Cons.prems obtain w1 where s: "applyDiff DEBUG d dir w = Inr w1"
    and r: "applyDiffs DEBUG ds dir w1 = Inr w'"
    by (auto split: sum.splits)
  from Cons.IH [OF r] applyDiff_fields [OF s] show ?case by simp
qed

lemma ReceiveTransactionPoolUpdate_Inr:
  assumes "ReceiveTransactionPoolUpdate DEBUG cc txns U w = Inr w'"
  obtains w1 w2 w4 where "applyDiffs DEBUG (unconfirmedDiffs w) DiffRevert w = Inr w1"
    and "applyDiffs DEBUG (SiacoinOutputDiffs cc) DiffApply w1 = Inr w2"
    and "applyDiffs DEBUG U DiffApply (w2\<lparr>unconfirmedDiffs := U\<rparr>) = Inr w4"
    and "w' = notifySubscribers (w4\<lparr>age := age w4 - of_nat (length (RevertedBlocks cc))
                                              + of_nat (length (AppliedBlocks cc))\<rparr>)"
  using assms
  by (auto simp add: ReceiveTransactionPoolUpdate_def Let_def split: sum.splits)

lemmas run_defs = ReceiveTransactionPoolUpdate_def applyDiff_def storeOutput_def
  notifySubscribers_def viewOf_def Let_def walletWith_def created_def spent_def seen_def
  onlyDiffs_def

section \<open>Entries stay\<close>

lemma entryOf_keys_cong: "keys w1 = keys w2 \<Longrightarrow> entryOf w1 = entryOf w2"
  by (rule ext)+ (simp add: entryOf_def)

lemma retains_refl: "retains w w"
  by (simp add: retains_def)

lemma retains_trans: "retains w1 w2 \<Longrightarrow> retains w2 w3 \<Longrightarrow> retains w1 w3"
  unfolding retains_def by (metis)

lemma retains_keys_cong: "keys w2 = keys w3 \<Longrightarrow> retains w1 w2 \<Longrightarrow> retains w1 w3"
  by (simp add: retains_def entryOf_keys_cong [of w2 w3])

lemma retains_storeOutput:
  assumes k: "keys w a = Some k"
    and same: "\<forall>e. outputs k i = Some e \<longrightarrow>
           id_ko ko = id_ko e \<and> output_ko ko = output_ko e \<and> age_ko ko = age_ko e"
  shows "retains w (storeOutput w a k i ko)"
  unfolding retains_def
proof (intro allI impI)
  fix a' i' e
  assume e: "entryOf w a' i' = Some e"
  show "\<exists>e'. entryOf (storeOutput w a k i ko) a' i' = Some e' \<and> id_ko e' = id_ko e
          \<and> output_ko e' = output_ko e \<and> age_ko e' = age_ko e"
  proof (cases "a' = a \<and> i' = i")
    case True
    with e k have "outputs k i = Some e" by (simp add: entryOf_def)
    with same True k show ?thesis by (simp add: entryOf_storeOutput)
  next
    case False
    then have "entryOf (storeOutput w a k i ko) a' i' = entryOf w a' i'"
      using k by (auto simp add: entryOf_storeOutput)
    with e show ?thesis by simp
  qed
qed

lemma applyDiff_retains:
  assumes "applyDiff DEBUG d dir w = Inr w'"
  shows "retains w w'"
proof (cases "keys w (UnlockHash (SiacoinOutput d))")
  case None
  with assms show ?thesis by (simp add: applyDiff_def retains_refl)
next
  case (Some k)
  show ?thesis
  proof (cases "outputs k (ID d)")
    case None
    with Some assms have "w' = storeOutput w (UnlockHash (SiacoinOutput d)) k (ID d)
        \<lparr>id_ko = ID d, output_ko = SiacoinOutput d, spendable = True, age_ko = 0\<rparr>"
      by (simp add: applyDiff_def split: if_splits)
    with Some None show ?thesis by (simp add: retains_storeOutput)
  next
    case (Some e)
    with \<open>keys w _ = Some k\<close> assms
    have "w' = storeOutput w (UnlockHash (SiacoinOutput d)) k (ID d) (e\<lparr>spendable := (Direction d = dir)\<rparr>)"
      by (simp add: applyDiff_entry)
    with \<open>keys w _ = Some k\<close> Some show ?thesis by (simp add: retains_storeOutput)
  qed
qed

lemma applyDiffs_retains:
  "applyDiffs DEBUG ds dir w = Inr w' \<Longrightarrow> retains w w'"
proof (induction ds arbitrary: w)
  case Nil
  then show ?case by (simp add: retains_refl)
next
  case (Cons d ds)
  from Cons.prems obtain w1 where s: "applyDiff DEBUG d dir w = Inr w1"
    and r: "applyDiffs DEBUG ds dir w1 = Inr w'"
    by (auto split: sum.splits)
  from applyDiff_retains [OF s] Cons.IH [OF r] show ?case by (rule retains_trans)
qed

lemma applyDiff_entryOf:
  assumes "entryOf w a i = Some e" and "touches a i d"
  shows "\<exists>w1. applyDiff DEBUG d dir w = Inr w1
     \<and> entryOf w1 a i = Some (e\<lparr>spendable := (Direction d = dir)\<rparr>)"
proof -
  from assms(1) obtain k where k: "keys w a = Some k" and e: "outputs k i = Some e"
    by (auto simp add: entryOf_def split: option.splits)
  from assms(2) have a: "UnlockHash (SiacoinOutput d) = a" and i: "ID d = i"
    by (simp_all add: touches_def)
  from k e have "applyDiff DEBUG d dir w
      = Inr (storeOutput w a k i (e\<lparr>spendable := (Direction d = dir)\<rparr>))"
    using applyDiff_entry [of w d k e DEBUG dir] by (simp add: a i)
  with k show ?thesis by (simp add: entryOf_storeOutput)
qed

section \<open>The wallet at a panic\<close>

text \<open>
  A panic of \<^verbatim>\<open>applyDiff\<close> comes before any write of that call. A call of
  \<^verbatim>\<open>ReceiveTransactionPoolUpdate\<close> panics in its first, second or third loop, and the
  wallet at the panic has the entries stored so far, no notification and the old age.
\<close>

lemma applyDiff_Inl: "applyDiff DEBUG d dir w = Inl (e, wp) \<Longrightarrow> wp = w"
  by (auto simp add: applyDiff_def split: option.splits if_splits)

lemma applyDiffs_Inl:
  assumes "applyDiffs DEBUG ds dir w = Inl (e, wp)"
  shows "unconfirmedDiffs wp = unconfirmedDiffs w \<and> age wp = age w
    \<and> notified wp = notified w \<and> dom (keys wp) = dom (keys w) \<and> retains w wp"
  using assms
proof (induction ds arbitrary: w)
  case Nil
  then show ?case by simp
next
  case (Cons d ds)
  show ?case
  proof (cases "applyDiff DEBUG d dir w")
    case (Inl p)
    with Cons.prems have "p = (e, wp)" by simp
    with Inl have "wp = w" by (simp add: applyDiff_Inl)
    then show ?thesis by (simp add: retains_refl)
  next
    case (Inr w1)
    with Cons.prems have r: "applyDiffs DEBUG ds dir w1 = Inl (e, wp)" by simp
    from Cons.IH [OF r] applyDiff_fields [OF Inr] applyDiff_retains [OF Inr]
    show ?thesis by (auto intro: retains_trans)
  qed
qed

lemma ReceiveTransactionPoolUpdate_Inl:
  assumes "ReceiveTransactionPoolUpdate DEBUG cc txns U w = Inl (e, wp)"
  obtains "applyDiffs DEBUG (unconfirmedDiffs w) DiffRevert w = Inl (e, wp)"
  | w1 where "applyDiffs DEBUG (unconfirmedDiffs w) DiffRevert w = Inr w1"
      and "applyDiffs DEBUG (SiacoinOutputDiffs cc) DiffApply w1 = Inl (e, wp)"
  | w1 w2 where "applyDiffs DEBUG (unconfirmedDiffs w) DiffRevert w = Inr w1"
      and "applyDiffs DEBUG (SiacoinOutputDiffs cc) DiffApply w1 = Inr w2"
      and "applyDiffs DEBUG U DiffApply (w2\<lparr>unconfirmedDiffs := U\<rparr>) = Inl (e, wp)"
  using assms
  by (auto simp add: ReceiveTransactionPoolUpdate_def Let_def split: sum.splits)

lemma ReceiveTransactionPoolUpdate_Inl_fields:
  assumes "ReceiveTransactionPoolUpdate DEBUG cc txns U w = Inl (e, wp)"
  shows "notified wp = notified w" and "age wp = age w" and "retains w wp"
    and "unconfirmedDiffs wp = unconfirmedDiffs w \<or> unconfirmedDiffs wp = U"
proof -
  from assms show "notified wp = notified w"
    by (rule ReceiveTransactionPoolUpdate_Inl)
       (auto dest!: applyDiffs_Inl applyDiffs_fields)
  from assms show "age wp = age w"
    by (rule ReceiveTransactionPoolUpdate_Inl)
       (auto dest!: applyDiffs_Inl applyDiffs_fields)
  from assms show "unconfirmedDiffs wp = unconfirmedDiffs w \<or> unconfirmedDiffs wp = U"
    by (rule ReceiveTransactionPoolUpdate_Inl)
       (auto dest!: applyDiffs_Inl applyDiffs_fields)
  from assms show "retains w wp"
  proof (rule ReceiveTransactionPoolUpdate_Inl)
    assume "applyDiffs DEBUG (unconfirmedDiffs w) DiffRevert w = Inl (e, wp)"
    then show ?thesis by (simp add: applyDiffs_Inl)
  next
    fix w1 assume 1: "applyDiffs DEBUG (unconfirmedDiffs w) DiffRevert w = Inr w1"
      and 2: "applyDiffs DEBUG (SiacoinOutputDiffs cc) DiffApply w1 = Inl (e, wp)"
    from applyDiffs_retains [OF 1] applyDiffs_Inl [OF 2] show ?thesis
      by (blast intro: retains_trans)
  next
    fix w1 w2 assume 1: "applyDiffs DEBUG (unconfirmedDiffs w) DiffRevert w = Inr w1"
      and 2: "applyDiffs DEBUG (SiacoinOutputDiffs cc) DiffApply w1 = Inr w2"
      and 3: "applyDiffs DEBUG U DiffApply (w2\<lparr>unconfirmedDiffs := U\<rparr>) = Inl (e, wp)"
    have "retains w w2" using applyDiffs_retains [OF 1] applyDiffs_retains [OF 2]
      by (rule retains_trans)
    then have "retains w (w2\<lparr>unconfirmedDiffs := U\<rparr>)"
      by (rule retains_keys_cong [rotated]) simp
    with applyDiffs_Inl [OF 3] show ?thesis by (blast intro: retains_trans)
  qed
qed

section \<open>The last diff for an output decides its flag\<close>

lemma isSpendable_keys_cong: "keys w1 = keys w2 \<Longrightarrow> isSpendable w1 = isSpendable w2"
  by (rule ext)+ (simp add: isSpendable_def entryOf_keys_cong [of w1 w2])

lemma applyDiff_isSpendable:
  assumes r: "applyDiff DEBUG d dir w = Inr w1" and a: "a \<in> dom (keys w)"
  shows "isSpendable w1 a i = (if touches a i d then Direction d = dir else isSpendable w a i)"
proof (cases "keys w (UnlockHash (SiacoinOutput d))")
  case None
  with a have "\<not> touches a i d" by (auto simp add: touches_def)
  moreover from None r have "w1 = w" by (simp add: applyDiff_def)
  ultimately show ?thesis by simp
next
  case (Some k)
  show ?thesis
  proof (cases "outputs k (ID d)")
    case None
    with Some r have m: "Direction d = dir"
      and w1: "w1 = storeOutput w (UnlockHash (SiacoinOutput d)) k (ID d)
        \<lparr>id_ko = ID d, output_ko = SiacoinOutput d, spendable = True, age_ko = 0\<rparr>"
      by (simp_all add: applyDiff_def split: if_splits)
    from Some show ?thesis
      by (simp add: w1 m isSpendable_def entryOf_storeOutput touches_def)
  next
    case (Some e)
    with \<open>keys w _ = Some k\<close> r
    have w1: "w1 = storeOutput w (UnlockHash (SiacoinOutput d)) k (ID d)
        (e\<lparr>spendable := (Direction d = dir)\<rparr>)"
      by (simp add: applyDiff_entry)
    from \<open>keys w _ = Some k\<close> show ?thesis
      by (simp add: w1 isSpendable_def entryOf_storeOutput touches_def)
  qed
qed

lemma applyDiffs_isSpendable:
  assumes "applyDiffs DEBUG ds dir w = Inr w'" and "a \<in> dom (keys w)"
  shows "isSpendable w' a i
    = (case lastDiffFor a i ds of None \<Rightarrow> isSpendable w a i | Some d \<Rightarrow> Direction d = dir)"
  using assms
proof (induction ds arbitrary: w)
  case Nil
  then show ?case by simp
next
  case (Cons d ds)
  from Cons.prems obtain w1 where s: "applyDiff DEBUG d dir w = Inr w1"
    and r: "applyDiffs DEBUG ds dir w1 = Inr w'"
    by (auto split: sum.splits)
  from applyDiff_fields(4) [OF s] Cons.prems(2) have a1: "a \<in> dom (keys w1)" by simp
  from Cons.IH [OF r a1] applyDiff_isSpendable [OF s Cons.prems(2), of i]
  show ?case by (simp split: option.splits)
qed

lemma applyDiff_touched_entry:
  assumes r: "applyDiff DEBUG d dir w = Inr w1" and a: "a \<in> dom (keys w)" and t: "touches a i d"
  shows "entryOf w1 a i \<noteq> None"
proof -
  from a t obtain k where k: "keys w (UnlockHash (SiacoinOutput d)) = Some k"
    by (auto simp add: touches_def)
  show ?thesis
  proof (cases "outputs k (ID d)")
    case None
    with k r have "w1 = storeOutput w (UnlockHash (SiacoinOutput d)) k (ID d)
        \<lparr>id_ko = ID d, output_ko = SiacoinOutput d, spendable = True, age_ko = 0\<rparr>"
      by (simp add: applyDiff_def split: if_splits)
    with k t show ?thesis by (simp add: entryOf_storeOutput touches_def)
  next
    case (Some e)
    with k r have "w1 = storeOutput w (UnlockHash (SiacoinOutput d)) k (ID d)
        (e\<lparr>spendable := (Direction d = dir)\<rparr>)"
      by (simp add: applyDiff_entry)
    with k t show ?thesis by (simp add: entryOf_storeOutput touches_def)
  qed
qed

lemma retains_entry: "retains w w' \<Longrightarrow> entryOf w a i \<noteq> None \<Longrightarrow> entryOf w' a i \<noteq> None"
  unfolding retains_def by fastforce

lemma applyDiffs_touched_entry:
  assumes "applyDiffs DEBUG ds dir w = Inr w'" and "a \<in> dom (keys w)"
    and "lastDiffFor a i ds = Some d"
  shows "entryOf w' a i \<noteq> None"
  using assms
proof (induction ds arbitrary: w)
  case Nil
  then show ?case by simp
next
  case (Cons x ds)
  from Cons.prems(1) obtain w1 where s: "applyDiff DEBUG x dir w = Inr w1"
    and r: "applyDiffs DEBUG ds dir w1 = Inr w'"
    by (auto split: sum.splits)
  from applyDiff_fields(4) [OF s] Cons.prems(2) have a1: "a \<in> dom (keys w1)" by simp
  show ?case
  proof (cases "lastDiffFor a i ds")
    case None
    with Cons.prems(3) have "touches a i x" by (simp split: if_splits)
    from applyDiff_touched_entry [OF s Cons.prems(2) this] applyDiffs_retains [OF r]
    show ?thesis by (rule retains_entry [rotated])
  next
    case (Some d')
    with Cons.prems(3) have "lastDiffFor a i ds = Some d" by simp
    from Cons.IH [OF r a1 this] show ?thesis .
  qed
qed

lemma lastDiffFor_None: "lastDiffFor a i ds = None \<longleftrightarrow> (\<forall>d\<in>set ds. \<not> touches a i d)"
  by (induction ds) (auto split: option.splits)


section \<open>Passes that go through\<close>

lemma foldl_andThen:
  "foldl (\<lambda>r d. andThen r (applyDiff DEBUG d dir)) r ds = andThen r (applyDiffs DEBUG ds dir)"
proof (induction ds arbitrary: r)
  case Nil
  then show ?case by (simp add: andThen_def split: sum.splits)
next
  case (Cons d ds)
  then show ?case by (simp add: andThen_def split: sum.splits)
qed

lemma andThen_assoc: "andThen (andThen r f) g = andThen r (\<lambda>x. andThen (f x) g)"
  by (cases r) (simp_all add: andThen_def)

lemma forEvery_applyDiffs: "forEvery DEBUG dir ds w = applyDiffs DEBUG ds dir w"
  by (simp add: forEvery_def foldl_andThen) (simp add: andThen_def)

lemma entriesPresent_retains:
  assumes "entriesPresent ds w" and "retains w w'" and "dom (keys w') = dom (keys w)"
  shows "entriesPresent ds w'"
  unfolding entriesPresent_def
proof (intro ballI impI)
  fix d assume d: "d \<in> set ds" and "keys w' (UnlockHash (SiacoinOutput d)) \<noteq> None"
  with assms(3) have "keys w (UnlockHash (SiacoinOutput d)) \<noteq> None" by (auto simp add: dom_def)
  with assms(1) d have "entryOf w (UnlockHash (SiacoinOutput d)) (ID d) \<noteq> None"
    by (simp add: entriesPresent_def)
  with assms(2) show "entryOf w' (UnlockHash (SiacoinOutput d)) (ID d) \<noteq> None"
    by (rule retains_entry)
qed

lemma entriesPresent_keys_cong: "keys w = keys w' \<Longrightarrow> entriesPresent ds w = entriesPresent ds w'"
  by (simp add: entriesPresent_def entryOf_keys_cong [of w w'])

lemma applyDiffs_entriesPresent:
  "applyDiffs DEBUG ds dir w = Inr w' \<Longrightarrow> entriesPresent ds w'"
proof (induction ds arbitrary: w)
  case Nil
  then show ?case by (simp add: entriesPresent_def)
next
  case (Cons d ds)
  from Cons.prems obtain w1 where s: "applyDiff DEBUG d dir w = Inr w1"
    and r: "applyDiffs DEBUG ds dir w1 = Inr w'"
    by (auto split: sum.splits)
  have "keys w' (UnlockHash (SiacoinOutput d)) \<noteq> None \<longrightarrow>
        entryOf w' (UnlockHash (SiacoinOutput d)) (ID d) \<noteq> None"
  proof
    assume "keys w' (UnlockHash (SiacoinOutput d)) \<noteq> None"
    then have "UnlockHash (SiacoinOutput d) \<in> dom (keys w)"
      using applyDiffs_fields [OF r] applyDiff_fields(4) [OF s] by (auto simp add: dom_def)
    then have "entryOf w1 (UnlockHash (SiacoinOutput d)) (ID d) \<noteq> None"
      by (rule applyDiff_touched_entry [OF s]) (simp add: touches_def)
    with applyDiffs_retains [OF r] show "entryOf w' (UnlockHash (SiacoinOutput d)) (ID d) \<noteq> None"
      by (rule retains_entry)
  qed
  with Cons.IH [OF r] show ?case by (simp add: entriesPresent_def)
qed

lemma applyDiffs_returns:
  "entriesPresent ds w \<Longrightarrow> \<exists>w'. applyDiffs DEBUG ds dir w = Inr w'"
proof (induction ds arbitrary: w)
  case Nil
  then show ?case by simp
next
  case (Cons d ds)
  have "\<exists>w1. applyDiff DEBUG d dir w = Inr w1"
  proof (cases "keys w (UnlockHash (SiacoinOutput d))")
    case None
    then show ?thesis by (simp add: applyDiff_def)
  next
    case (Some k)
    with Cons.prems obtain e where "outputs k (ID d) = Some e"
      by (auto simp add: entriesPresent_def entryOf_def)
    with Some show ?thesis by (simp add: applyDiff_entry)
  qed
  then obtain w1 where s: "applyDiff DEBUG d dir w = Inr w1" ..
  from Cons.prems have "entriesPresent ds w" by (simp add: entriesPresent_def)
  then have "entriesPresent ds w1"
    using applyDiff_retains [OF s] applyDiff_fields(4) [OF s] by (rule entriesPresent_retains)
  from Cons.IH [OF this] s show ?case by simp
qed

lemma ReceiveTransactionPoolUpdate_entriesPresent:
  assumes "ReceiveTransactionPoolUpdate DEBUG cc txns U w = Inr w'"
  shows "entriesPresent (unconfirmedDiffs w') w'"
proof -
  from assms obtain w1 w2 w4 where
        1: "applyDiffs DEBUG (unconfirmedDiffs w) DiffRevert w = Inr w1"
    and 2: "applyDiffs DEBUG (SiacoinOutputDiffs cc) DiffApply w1 = Inr w2"
    and 3: "applyDiffs DEBUG U DiffApply (w2\<lparr>unconfirmedDiffs := U\<rparr>) = Inr w4"
    and 4: "w' = notifySubscribers (w4\<lparr>age := age w4 - of_nat (length (RevertedBlocks cc))
                                              + of_nat (length (AppliedBlocks cc))\<rparr>)"
    by (rule ReceiveTransactionPoolUpdate_Inr)
  have "unconfirmedDiffs w' = U"
    using applyDiffs_fields [OF 3] by (simp add: 4 notifySubscribers_def)
  moreover have "keys w4 = keys w'" by (simp add: 4 notifySubscribers_def)
  ultimately show ?thesis
    using applyDiffs_entriesPresent [OF 3] by (simp add: entriesPresent_keys_cong [of w4 w'])
qed

lemma ReceiveTransactionPoolUpdate_notified:
  assumes "ReceiveTransactionPoolUpdate DEBUG cc txns U w = Inr w'"
  shows "notified w' = notified w @ [viewOf w']"
proof -
  from assms obtain w1 w2 w4 where 1: "applyDiffs DEBUG (unconfirmedDiffs w) DiffRevert w = Inr w1"
    and 2: "applyDiffs DEBUG (SiacoinOutputDiffs cc) DiffApply w1 = Inr w2"
    and 3: "applyDiffs DEBUG U DiffApply (w2\<lparr>unconfirmedDiffs := U\<rparr>) = Inr w4"
    and 4: "w' = notifySubscribers (w4\<lparr>age := age w4 - of_nat (length (RevertedBlocks cc))
                                              + of_nat (length (AppliedBlocks cc))\<rparr>)"
    by (rule ReceiveTransactionPoolUpdate_Inr)
  have "notified w4 = notified w"
    using applyDiffs_fields [OF 1] applyDiffs_fields [OF 2] applyDiffs_fields [OF 3] by simp
  then show ?thesis by (simp add: 4 notifySubscribers_def viewOf_def)
qed

lemma ReceiveTransactionPoolUpdate_empty_returns:
  assumes "entriesPresent (unconfirmedDiffs w) w"
  shows "\<exists>w'. ReceiveTransactionPoolUpdate DEBUG (onlyDiffs []) txns [] w = Inr w'"
proof -
  from applyDiffs_returns [OF assms] obtain w1
    where "applyDiffs DEBUG (unconfirmedDiffs w) DiffRevert w = Inr w1" ..
  then show ?thesis by (simp add: ReceiveTransactionPoolUpdate_def onlyDiffs_def)
qed

section \<open>Wallets with the same spendable outputs\<close>






section \<open>Unknown addresses\<close>

text \<open>
  C9. A diff whose address is not an address of the wallet leaves the wallet as it is,
  in either direction and in either build, and \<^verbatim>\<open>applyDiff\<close> returns normally.
\<close>

theorem applyDiff_unknown_address:
  "keys w (UnlockHash (SiacoinOutput scod)) = None \<Longrightarrow> applyDiff DEBUG scod dir w = Inr w"
  by (simp add: applyDiff_def)

theorem applyDiff_unknown_address_witness:
  "keys (walletWith [1 \<mapsto> seen 1 True] [])
      (UnlockHash (SiacoinOutput (createdElsewhere 1))) = None
   \<and> applyDiff True (createdElsewhere 1) DiffRevert (walletWith [1 \<mapsto> seen 1 True] [])
       = Inr (walletWith [1 \<mapsto> seen 1 True] [])
   \<and> applyDiff False (createdElsewhere 1) DiffApply (walletWith [1 \<mapsto> seen 1 True] [])
       = Inr (walletWith [1 \<mapsto> seen 1 True] [])"
  using applyDiff_unknown_address
      [of "walletWith [1 \<mapsto> seen 1 True] []" "createdElsewhere 1" True DiffRevert]
    applyDiff_unknown_address
      [of "walletWith [1 \<mapsto> seen 1 True] []" "createdElsewhere 1" False DiffApply]
  by (simp add: walletWith_def createdElsewhere_def)

section \<open>The ignored transaction list\<close>

text \<open>
  C10. The transaction list handed to \<^verbatim>\<open>ReceiveTransactionPoolUpdate\<close> has no effect: two
  calls that differ in it only give the same result, that is the same panic or the same
  wallet (ledger, Pending Diff Set, Age Counter and notifications).
\<close>

theorem ReceiveTransactionPoolUpdate_ignores_transactions:
  "ReceiveTransactionPoolUpdate DEBUG cc txns unconfirmedSiacoinDiffs w
     = ReceiveTransactionPoolUpdate DEBUG cc txns' unconfirmedSiacoinDiffs w"
  by (simp add: ReceiveTransactionPoolUpdate_def)

section \<open>A diff in the direction of the pass\<close>

text \<open>
  C3. For a diff of a wallet address whose direction is the direction of the pass,
  \<^verbatim>\<open>applyDiff\<close> returns. Where the wallet has no entry for the identifier, the entry
  it has afterwards is the new one, spendable and of age 0; where it has one, that entry
  is the old one with the flag set. No other entry changes, an entry that was spendable
  already leaves the whole wallet as it was, and a second application of the same diff
  changes nothing and does not fail: the map has one entry per identifier, spendable.
\<close>

theorem applyDiff_matching:
  assumes "keys w (UnlockHash (SiacoinOutput scod)) = Some k" and "Direction scod = dir"
  shows "\<exists>w1. applyDiff DEBUG scod dir w = Inr w1
     \<and> entryOf w1 (UnlockHash (SiacoinOutput scod)) (ID scod)
         = Some (case outputs k (ID scod) of
                   None \<Rightarrow> \<lparr>id_ko = ID scod, output_ko = SiacoinOutput scod,
                            spendable = True, age_ko = 0\<rparr>
                 | Some e \<Rightarrow> e\<lparr>spendable := True\<rparr>)
     \<and> (\<forall>a i. \<not> touches a i scod \<longrightarrow> entryOf w1 a i = entryOf w a i)
     \<and> dom (keys w1) = dom (keys w)
     \<and> (isSpendable w (UnlockHash (SiacoinOutput scod)) (ID scod) \<longrightarrow> w1 = w)
     \<and> isSpendable w1 (UnlockHash (SiacoinOutput scod)) (ID scod)
     \<and> applyDiff DEBUG scod dir w1 = Inr w1"
  using assms
  by (auto simp add: applyDiff_def entryOf_storeOutput keys_storeOutput_dom touches_def
      isSpendable_def entryOf_def storeOutput_def split: option.splits)

theorem applyDiff_matching_witness:
  "\<exists>w1. applyDiff False (created 1) DiffApply (walletWith Map.empty []) = Inr w1
     \<and> entryOf w1 1 1 = Some (seen 1 True)
     \<and> isSpendable w1 1 1
     \<and> applyDiff False (created 1) DiffApply w1 = Inr w1"
  using applyDiff_matching
    [of "walletWith Map.empty []" "created 1" "\<lparr>outputs = Map.empty\<rparr>" DiffApply False]
  by (auto simp add: walletWith_def created_def seen_def)

section \<open>A diff against the direction of the pass, with no entry\<close>

text \<open>
  C4, as the code has it. For a diff of a wallet address whose direction is not the
  direction of the pass and for whose identifier the wallet has no entry,
  \<^verbatim>\<open>applyDiff\<close> does not return in either build: with \<^verbatim>\<open>build.DEBUG\<close> it panics at
  line 145, and without it the assignment of line 149 writes through the nil pointer
  that the map lookup yields. Nothing is written to the wallet before either panic: the
  wallet at the panic is the wallet of the call.
\<close>

theorem applyDiff_missing_entry:
  assumes "keys w (UnlockHash (SiacoinOutput scod)) = Some k"
    and "Direction scod \<noteq> dir" and "outputs k (ID scod) = None"
  shows "applyDiff DEBUG scod dir w =
     Inl (if DEBUG then Panic ''trying to delete an output that doesn't exist?''
          else NilPointerDereference, w)"
  using assms by (simp add: applyDiff_def)

theorem applyDiff_missing_entry_witness:
  "applyDiff True (spent 1) DiffApply (walletWith Map.empty [])
     = Inl (Panic ''trying to delete an output that doesn't exist?'', walletWith Map.empty [])
   \<and> applyDiff False (created 1) DiffRevert (walletWith Map.empty [])
     = Inl (NilPointerDereference, walletWith Map.empty [])"
  using applyDiff_missing_entry
      [of "walletWith Map.empty []" "spent 1" "\<lparr>outputs = Map.empty\<rparr>" DiffApply True]
    applyDiff_missing_entry
      [of "walletWith Map.empty []" "created 1" "\<lparr>outputs = Map.empty\<rparr>" DiffRevert False]
  by (simp add: walletWith_def spent_def created_def)

text \<open>
  The claim as the spec has it fails without \<^verbatim>\<open>build.DEBUG\<close>: the call is not ignored.
\<close>

theorem applyDiff_missing_entry_counterexample:
  "applyDiff False (spent 1) DiffApply (walletWith Map.empty [])
     = Inl (NilPointerDereference, walletWith Map.empty [])
   \<and> applyDiff False (spent 1) DiffApply (walletWith Map.empty [])
       \<noteq> Inr (walletWith Map.empty [])"
  by (simp add: applyDiff_def spent_def walletWith_def)

section \<open>Forward, then reverse\<close>

text \<open>
  C5, as the code has it. For a diff \<open>d\<close> of a wallet address for whose identifier the
  wallet has an entry, \<^verbatim>\<open>applyDiff\<close> forward and then \<^verbatim>\<open>applyDiff\<close> in reverse both
  return, create no entry and change no other entry, nor the Pending Diff Set, the Age
  Counter or the notifications. The entry keeps its fields but for the flag, which ends
  false for a diff of direction \<^verbatim>\<open>DiffApply\<close> and true for one of direction
  \<^verbatim>\<open>DiffRevert\<close>, whatever it was before. Where that is what it was before (the forward
  call changed the flag), the wallet is as it was before the sequence.
\<close>

theorem applyDiff_forward_reverse:
  assumes "keys w (UnlockHash (SiacoinOutput d)) = Some k" and "outputs k (ID d) = Some e"
  shows "\<exists>w1 w2. applyDiff DEBUG d DiffApply w = Inr w1 \<and> applyDiff DEBUG d DiffRevert w1 = Inr w2
     \<and> entryOf w2 (UnlockHash (SiacoinOutput d)) (ID d)
         = Some (e\<lparr>spendable := (Direction d = DiffRevert)\<rparr>)
     \<and> (\<forall>a i. \<not> touches a i d \<longrightarrow> entryOf w2 a i = entryOf w a i)
     \<and> dom (keys w2) = dom (keys w)
     \<and> unconfirmedDiffs w2 = unconfirmedDiffs w \<and> age w2 = age w \<and> notified w2 = notified w
     \<and> (spendable e = (Direction d = DiffRevert) \<longrightarrow> w2 = w)"
proof -
  let ?a = "UnlockHash (SiacoinOutput d)" and ?i = "ID d"
  let ?e1 = "e\<lparr>spendable := (Direction d = DiffApply)\<rparr>"
  let ?k1 = "k\<lparr>outputs := (outputs k)(?i \<mapsto> ?e1)\<rparr>"
  let ?w1 = "storeOutput w ?a k ?i ?e1"
  let ?e2 = "e\<lparr>spendable := (Direction d = DiffRevert)\<rparr>"
  let ?w2 = "storeOutput w ?a k ?i ?e2"
  have s1: "applyDiff DEBUG d DiffApply w = Inr ?w1"
    by (rule applyDiff_entry [OF assms])
  have "applyDiff DEBUG d DiffRevert ?w1
      = Inr (storeOutput ?w1 ?a ?k1 ?i (?e1\<lparr>spendable := (Direction d = DiffRevert)\<rparr>))"
    by (rule applyDiff_entry) (simp_all add: keys_storeOutput)
  then have s2: "applyDiff DEBUG d DiffRevert ?w1 = Inr ?w2"
    by (simp add: storeOutput_twice)
  have restore: "spendable e = (Direction d = DiffRevert) \<longrightarrow> ?w2 = w"
  proof
    assume "spendable e = (Direction d = DiffRevert)"
    then have "?e2 = e" by simp
    then show "?w2 = w" using assms by (simp add: storeOutput_same)
  qed
  have frame: "\<forall>a i. \<not> touches a i d \<longrightarrow> entryOf ?w2 a i = entryOf w a i"
    using assms(1) by (auto simp add: entryOf_storeOutput touches_def)
  have "entryOf ?w2 ?a ?i = Some ?e2"
    using assms(1) by (simp add: entryOf_storeOutput)
  with s1 s2 restore frame show ?thesis
    using assms(1) by (simp add: keys_storeOutput_dom storeOutput_fields)
qed

theorem applyDiff_forward_reverse_witness:
  "\<exists>w1 w2. applyDiff True (spent 1) DiffApply (walletWith [1 \<mapsto> seen 1 True] []) = Inr w1
     \<and> applyDiff True (spent 1) DiffRevert w1 = Inr w2
     \<and> entryOf w2 1 1 = Some (seen 1 True)
     \<and> w2 = walletWith [1 \<mapsto> seen 1 True] []"
  using applyDiff_forward_reverse
    [of "walletWith [1 \<mapsto> seen 1 True] []" "spent 1" "\<lparr>outputs = [1 \<mapsto> seen 1 True]\<rparr>"
        "seen 1 True" True]
  by (simp add: walletWith_def spent_def seen_def)

text \<open>
  The claim as the spec has it fails where the forward call finds the flag set already:
  an output that the wallet has as spendable, seen again in an "output created" diff, is
  unspendable after the sequence.
\<close>

theorem applyDiff_forward_reverse_counterexample:
  "applyDiff False (created 1) DiffApply (walletWith [1 \<mapsto> seen 1 True] [])
     = Inr (walletWith [1 \<mapsto> seen 1 True] [])
   \<and> applyDiff False (created 1) DiffRevert (walletWith [1 \<mapsto> seen 1 True] [])
     = Inr (walletWith [1 \<mapsto> seen 1 False] [])
   \<and> isSpendable (walletWith [1 \<mapsto> seen 1 True] []) 1 1
   \<and> \<not> isSpendable (walletWith [1 \<mapsto> seen 1 False] []) 1 1"
  by (simp add: applyDiff_def created_def walletWith_def seen_def storeOutput_def
      isSpendable_def entryOf_def)

section \<open>The Age Counter\<close>

text \<open>
  C8, as the code has it. A call of \<^verbatim>\<open>ReceiveTransactionPoolUpdate\<close> with \<open>r\<close> reverted
  and \<open>a\<close> applied blocks that returns leaves the Age Counter at its old value plus
  \<open>a - r\<close>, whatever the diffs are: in the arithmetic of Go's \<^verbatim>\<open>int\<close>, and as an integer
  wherever that sum is an \<^verbatim>\<open>int\<close>. A call that panics in the Diff Applier leaves the Age
  Counter at its old value, whatever \<open>a\<close> and \<open>r\<close> are: the panic comes before line 178.
  A call of \<^verbatim>\<open>applyDiff\<close> leaves the Age Counter as it is, whether it returns or panics.
\<close>

theorem age_change:
  "(ReceiveTransactionPoolUpdate DEBUG cc txns U w = Inr w' \<longrightarrow>
      age w' = age w
         + (of_nat (length (AppliedBlocks cc)) - of_nat (length (RevertedBlocks cc)))
      \<and> (- (2 ^ 63) \<le> sint (age w)
              + (int (length (AppliedBlocks cc)) - int (length (RevertedBlocks cc)))
          \<and> sint (age w)
              + (int (length (AppliedBlocks cc)) - int (length (RevertedBlocks cc))) < 2 ^ 63
         \<longrightarrow> sint (age w') = sint (age w)
              + (int (length (AppliedBlocks cc)) - int (length (RevertedBlocks cc)))))
   \<and> (ReceiveTransactionPoolUpdate DEBUG cc txns U w = Inl (e, wp) \<longrightarrow> age wp = age w)
   \<and> (applyDiff DEBUG d dir w = Inr w'' \<longrightarrow> age w'' = age w)
   \<and> (applyDiff DEBUG d dir w = Inl (e', wp') \<longrightarrow> age wp' = age w)"
proof (intro conjI impI)
  assume "applyDiff DEBUG d dir w = Inr w''"
  then show "age w'' = age w" by (rule applyDiff_fields)
next
  assume "applyDiff DEBUG d dir w = Inl (e', wp')"
  then have "wp' = w" by (rule applyDiff_Inl)
  then show "age wp' = age w" by simp
next
  assume "ReceiveTransactionPoolUpdate DEBUG cc txns U w = Inl (e, wp)"
  then show "age wp = age w" by (rule ReceiveTransactionPoolUpdate_Inl_fields)
next
  let ?k = "int (length (AppliedBlocks cc)) - int (length (RevertedBlocks cc))"
  assume r: "ReceiveTransactionPoolUpdate DEBUG cc txns U w = Inr w'"
  then show e: "age w' = age w
      + (of_nat (length (AppliedBlocks cc)) - of_nat (length (RevertedBlocks cc)))"
    by (elim ReceiveTransactionPoolUpdate_Inr)
       (auto dest!: applyDiffs_fields simp add: notifySubscribers_def)
  assume b: "- (2 ^ 63) \<le> sint (age w) + ?k \<and> sint (age w) + ?k < 2 ^ 63"
  have eq: "age w' = word_of_int (sint (age w) + ?k)" using e by simp
  have "sint (age w') = signed_take_bit 63 (sint (age w) + ?k)"
    unfolding eq sint_sbintrunc' by simp
  also have "\<dots> = sint (age w) + ?k"
    using b by (simp add: signed_take_bit_int_eq_self)
  finally show "sint (age w') = sint (age w) + ?k" .
qed

theorem age_change_witness:
  "ReceiveTransactionPoolUpdate False
      \<lparr>RevertedBlocks = [5], AppliedBlocks = [6, 7], SiacoinOutputDiffs = [created 1]\<rparr> [] []
      (walletWith Map.empty [])
     = Inr (notifySubscribers ((walletWith [1 \<mapsto> seen 1 True] [])\<lparr>age := 1\<rparr>))
   \<and> age (notifySubscribers ((walletWith [1 \<mapsto> seen 1 True] [])\<lparr>age := 1\<rparr>)) = 0 + (2 - 1)
   \<and> sint (age (notifySubscribers ((walletWith [1 \<mapsto> seen 1 True] [])\<lparr>age := 1\<rparr>)))
       = 0 + (2 - 1)
   \<and> applyDiff False (created 1) DiffApply (walletWith Map.empty [])
       = Inr (walletWith [1 \<mapsto> seen 1 True] [])
   \<and> age (walletWith [1 \<mapsto> seen 1 True] []) = age (walletWith Map.empty [])
   \<and> applyDiff False (spent 1) DiffApply (walletWith Map.empty [])
       = Inl (NilPointerDereference, walletWith Map.empty [])"
proof -
  have r: "ReceiveTransactionPoolUpdate False
      \<lparr>RevertedBlocks = [5], AppliedBlocks = [6, 7], SiacoinOutputDiffs = [created 1]\<rparr> [] []
      (walletWith Map.empty [])
     = Inr (notifySubscribers ((walletWith [1 \<mapsto> seen 1 True] [])\<lparr>age := 1\<rparr>))"
    by (simp add: run_defs)
  have a: "applyDiff False (created 1) DiffApply (walletWith Map.empty [])
      = Inr (walletWith [1 \<mapsto> seen 1 True] [])"
    by (simp add: run_defs)
  have p: "applyDiff False (spent 1) DiffApply (walletWith Map.empty [])
      = Inl (NilPointerDereference, walletWith Map.empty [])"
    by (simp add: run_defs)
  show ?thesis
    using r a p age_change
      [of False "\<lparr>RevertedBlocks = [5], AppliedBlocks = [6, 7],
                  SiacoinOutputDiffs = [created 1]\<rparr>"
          "[]" "[]" "walletWith Map.empty []"
          "notifySubscribers ((walletWith [1 \<mapsto> seen 1 True] [])\<lparr>age := 1\<rparr>)"
          _ _ "created 1" DiffApply "walletWith [1 \<mapsto> seen 1 True] []"]
    by (simp add: walletWith_def)
qed

text \<open>
  The claim as the spec has it fails on a call that panics: with two applied blocks
  and a confirmed "output spent" diff for an output that the wallet has no entry of, the
  second loop panics and the Age Counter stays 0.
\<close>

theorem age_change_counterexample:
  "ReceiveTransactionPoolUpdate False
      \<lparr>RevertedBlocks = [], AppliedBlocks = [6, 7], SiacoinOutputDiffs = [spent 1]\<rparr> [] []
      (walletWith Map.empty [])
     = Inl (NilPointerDereference, walletWith Map.empty [])
   \<and> age (walletWith Map.empty []) = 0
   \<and> age (walletWith Map.empty [])
       \<noteq> 0 + (of_nat (length [6, 7 :: nat]) - of_nat (length ([] :: nat list)))"
  by (simp add: run_defs)

section \<open>The retention invariant\<close>

text \<open>
  C6. A call of \<^verbatim>\<open>applyDiff\<close> or of \<^verbatim>\<open>ReceiveTransactionPoolUpdate\<close> that returns
  keeps every ledger entry the wallet had, under its address and identifier, with its
  identity, payload and age: an entry is created only where there was none, and later
  diffs for the identifier change nothing but the flag. In particular an entry that a
  diff against the direction of the pass marks unspendable is still there, and the next
  diff in the direction of the pass sets the flag of that same entry. The wallet that a
  panicking call leaves keeps every entry in the same way.
\<close>

theorem entries_retained:
  "(applyDiff DEBUG d dir w = Inr w' \<longrightarrow> retains w w')
   \<and> (ReceiveTransactionPoolUpdate DEBUG cc txns U w = Inr w'' \<longrightarrow> retains w w'')
   \<and> (entryOf w a i = Some e \<and> touches a i d1 \<and> Direction d1 \<noteq> dir1
        \<and> touches a i d2 \<and> Direction d2 = dir2 \<longrightarrow>
      (\<exists>w1 w2. applyDiff DEBUG d1 dir1 w = Inr w1
         \<and> entryOf w1 a i = Some (e\<lparr>spendable := False\<rparr>)
         \<and> applyDiff DEBUG d2 dir2 w1 = Inr w2
         \<and> entryOf w2 a i = Some (e\<lparr>spendable := True\<rparr>)))
   \<and> (applyDiff DEBUG d dir w = Inl (x, wp) \<longrightarrow> retains w wp)
   \<and> (ReceiveTransactionPoolUpdate DEBUG cc txns U w = Inl (x', wp') \<longrightarrow> retains w wp')"
proof (intro conjI impI)
  assume "applyDiff DEBUG d dir w = Inl (x, wp)"
  then have "wp = w" by (rule applyDiff_Inl)
  then show "retains w wp" by (simp add: retains_refl)
next
  assume "ReceiveTransactionPoolUpdate DEBUG cc txns U w = Inl (x', wp')"
  then show "retains w wp'" by (rule ReceiveTransactionPoolUpdate_Inl_fields)
next
  assume "applyDiff DEBUG d dir w = Inr w'"
  then show "retains w w'" by (rule applyDiff_retains)
next
  assume "ReceiveTransactionPoolUpdate DEBUG cc txns U w = Inr w''"
  then obtain w1 w2 w4 where 1: "applyDiffs DEBUG (unconfirmedDiffs w) DiffRevert w = Inr w1"
    and 2: "applyDiffs DEBUG (SiacoinOutputDiffs cc) DiffApply w1 = Inr w2"
    and 3: "applyDiffs DEBUG U DiffApply (w2\<lparr>unconfirmedDiffs := U\<rparr>) = Inr w4"
    and 4: "w'' = notifySubscribers (w4\<lparr>age := age w4 - of_nat (length (RevertedBlocks cc))
                                              + of_nat (length (AppliedBlocks cc))\<rparr>)"
    by (rule ReceiveTransactionPoolUpdate_Inr)
  have "retains w w2" using applyDiffs_retains [OF 1] applyDiffs_retains [OF 2]
    by (rule retains_trans)
  then have "retains w (w2\<lparr>unconfirmedDiffs := U\<rparr>)"
    by (rule retains_keys_cong [rotated]) simp
  then have "retains w w4" using applyDiffs_retains [OF 3] by (rule retains_trans)
  then show "retains w w''"
    by (rule retains_keys_cong [rotated]) (simp add: 4 notifySubscribers_def)
next
  assume h: "entryOf w a i = Some e \<and> touches a i d1 \<and> Direction d1 \<noteq> dir1
        \<and> touches a i d2 \<and> Direction d2 = dir2"
  then obtain w1 where 1: "applyDiff DEBUG d1 dir1 w = Inr w1"
    and e1: "entryOf w1 a i = Some (e\<lparr>spendable := False\<rparr>)"
    using applyDiff_entryOf [of w a i e d1 DEBUG dir1] by auto
  from h obtain w2 where 2: "applyDiff DEBUG d2 dir2 w1 = Inr w2"
    and e2: "entryOf w2 a i = Some (e\<lparr>spendable := True\<rparr>)"
    using applyDiff_entryOf [OF e1, of d2 DEBUG dir2] by auto
  from 1 e1 2 e2 show "\<exists>w1 w2. applyDiff DEBUG d1 dir1 w = Inr w1
         \<and> entryOf w1 a i = Some (e\<lparr>spendable := False\<rparr>)
         \<and> applyDiff DEBUG d2 dir2 w1 = Inr w2
         \<and> entryOf w2 a i = Some (e\<lparr>spendable := True\<rparr>)"
    by blast
qed

theorem entries_retained_witness:
  "applyDiff False (spent 1) DiffApply (walletWith [1 \<mapsto> seen 1 True] [])
     = Inr (walletWith [1 \<mapsto> seen 1 False] [])
   \<and> retains (walletWith [1 \<mapsto> seen 1 True] []) (walletWith [1 \<mapsto> seen 1 False] [])
   \<and> ReceiveTransactionPoolUpdate False (onlyDiffs [spent 1]) [] [created 2]
        (walletWith [1 \<mapsto> seen 1 True] [])
     = Inr (notifySubscribers (walletWith [1 \<mapsto> seen 1 False, 2 \<mapsto> seen 2 True] [created 2]))
   \<and> retains (walletWith [1 \<mapsto> seen 1 True] [])
        (notifySubscribers (walletWith [1 \<mapsto> seen 1 False, 2 \<mapsto> seen 2 True] [created 2]))
   \<and> (\<exists>w1 w2. applyDiff False (spent 1) DiffApply (walletWith [1 \<mapsto> seen 1 True] []) = Inr w1
         \<and> entryOf w1 1 1 = Some (seen 1 False)
         \<and> applyDiff False (created 1) DiffApply w1 = Inr w2
         \<and> entryOf w2 1 1 = Some (seen 1 True))"
proof -
  have a: "applyDiff False (spent 1) DiffApply (walletWith [1 \<mapsto> seen 1 True] [])
     = Inr (walletWith [1 \<mapsto> seen 1 False] [])"
    by (simp add: run_defs)
  have r: "ReceiveTransactionPoolUpdate False (onlyDiffs [spent 1]) [] [created 2]
        (walletWith [1 \<mapsto> seen 1 True] [])
     = Inr (notifySubscribers (walletWith [1 \<mapsto> seen 1 False, 2 \<mapsto> seen 2 True] [created 2]))"
    by (simp add: run_defs)
  have e: "entryOf (walletWith [1 \<mapsto> seen 1 True] []) 1 1 = Some (seen 1 True)"
    by (simp add: entryOf_def walletWith_def)
  have t: "touches 1 1 (spent 1) \<and> Direction (spent 1) \<noteq> DiffApply
      \<and> touches 1 1 (created 1) \<and> Direction (created 1) = DiffApply"
    by (simp add: touches_def spent_def created_def)
  show ?thesis
    using a r e t entries_retained
      [of False "spent 1" DiffApply "walletWith [1 \<mapsto> seen 1 True] []"
          "walletWith [1 \<mapsto> seen 1 False] []" "onlyDiffs [spent 1]" "[]" "[created 2]"
          "notifySubscribers (walletWith [1 \<mapsto> seen 1 False, 2 \<mapsto> seen 2 True] [created 2])"
          1 1 "seen 1 True" "spent 1" DiffApply "created 1" DiffApply]
    by (simp add: seen_def)
qed

section \<open>The Pending Diff Set\<close>

text \<open>
  A call of \<^verbatim>\<open>ReceiveTransactionPoolUpdate\<close> that returns leaves the given unconfirmed
  diffs as the Pending Diff Set, whatever the set was before. Where the last diff of that
  set for some output of a wallet address is an "output created" diff (direction
  \<^verbatim>\<open>DiffApply\<close>), the output is spendable after the call, and a next call that brings
  an empty unconfirmed set and no confirmed diff for that output, and returns, leaves the
  entry of the output in place and not spendable.
\<close>

lemma pending_replaced:
  "(ReceiveTransactionPoolUpdate DEBUG cc txns U w = Inr w1 \<longrightarrow> unconfirmedDiffs w1 = U)
   \<and> (ReceiveTransactionPoolUpdate DEBUG cc txns U w = Inr w1
        \<and> ReceiveTransactionPoolUpdate DEBUG cc' txns' [] w1 = Inr w2
        \<and> a \<in> dom (keys w) \<and> lastDiffFor a i U = Some d \<and> Direction d = DiffApply
        \<and> (\<forall>x\<in>set (SiacoinOutputDiffs cc'). \<not> touches a i x)
      \<longrightarrow> isSpendable w1 a i \<and> unconfirmedDiffs w2 = []
          \<and> (\<exists>e. entryOf w2 a i = Some e \<and> \<not> spendable e))"
proof (intro conjI impI)
  assume "ReceiveTransactionPoolUpdate DEBUG cc txns U w = Inr w1"
  then show "unconfirmedDiffs w1 = U"
    by (elim ReceiveTransactionPoolUpdate_Inr)
       (auto dest!: applyDiffs_fields simp add: notifySubscribers_def)
next
  assume h: "ReceiveTransactionPoolUpdate DEBUG cc txns U w = Inr w1
        \<and> ReceiveTransactionPoolUpdate DEBUG cc' txns' [] w1 = Inr w2
        \<and> a \<in> dom (keys w) \<and> lastDiffFor a i U = Some d \<and> Direction d = DiffApply
        \<and> (\<forall>x\<in>set (SiacoinOutputDiffs cc'). \<not> touches a i x)"
  then have c1: "ReceiveTransactionPoolUpdate DEBUG cc txns U w = Inr w1"
    and c2: "ReceiveTransactionPoolUpdate DEBUG cc' txns' [] w1 = Inr w2"
    and a: "a \<in> dom (keys w)" and l: "lastDiffFor a i U = Some d"
    and d: "Direction d = DiffApply"
    and n: "lastDiffFor a i (SiacoinOutputDiffs cc') = None"
    by (simp_all add: lastDiffFor_None)
  from c1 obtain u1 u2 u4 where
        11: "applyDiffs DEBUG (unconfirmedDiffs w) DiffRevert w = Inr u1"
    and 12: "applyDiffs DEBUG (SiacoinOutputDiffs cc) DiffApply u1 = Inr u2"
    and 13: "applyDiffs DEBUG U DiffApply (u2\<lparr>unconfirmedDiffs := U\<rparr>) = Inr u4"
    and 14: "w1 = notifySubscribers (u4\<lparr>age := age u4 - of_nat (length (RevertedBlocks cc))
                                              + of_nat (length (AppliedBlocks cc))\<rparr>)"
    by (rule ReceiveTransactionPoolUpdate_Inr)
  have a2: "a \<in> dom (keys (u2\<lparr>unconfirmedDiffs := U\<rparr>))"
    using a applyDiffs_fields [OF 11] applyDiffs_fields [OF 12] by simp
  have k1: "keys w1 = keys u4" by (simp add: 14 notifySubscribers_def)
  have p1: "unconfirmedDiffs w1 = U"
    using applyDiffs_fields [OF 13] by (simp add: 14 notifySubscribers_def)
  have a4: "a \<in> dom (keys w1)" using a2 applyDiffs_fields [OF 13] by (simp add: k1)
  have "isSpendable u4 a i" using applyDiffs_isSpendable [OF 13 a2, of i] l d by simp
  then show "isSpendable w1 a i" by (simp add: isSpendable_keys_cong [OF k1])
  from c2 obtain v1 v2 v4 where
        21: "applyDiffs DEBUG (unconfirmedDiffs w1) DiffRevert w1 = Inr v1"
    and 22: "applyDiffs DEBUG (SiacoinOutputDiffs cc') DiffApply v1 = Inr v2"
    and 23: "applyDiffs DEBUG [] DiffApply (v2\<lparr>unconfirmedDiffs := []\<rparr>) = Inr v4"
    and 24: "w2 = notifySubscribers (v4\<lparr>age := age v4 - of_nat (length (RevertedBlocks cc'))
                                              + of_nat (length (AppliedBlocks cc'))\<rparr>)"
    by (rule ReceiveTransactionPoolUpdate_Inr)
  from 23 have v4: "v4 = v2\<lparr>unconfirmedDiffs := []\<rparr>" by simp
  have k2: "keys w2 = keys v2" by (simp add: 24 v4 notifySubscribers_def)
  show "unconfirmedDiffs w2 = []" by (simp add: 24 v4 notifySubscribers_def)
  have b1: "a \<in> dom (keys v1)" using a4 applyDiffs_fields [OF 21] by simp
  have "\<not> isSpendable v1 a i"
    using applyDiffs_isSpendable [OF 21 a4, of i] l d by (simp add: p1)
  then have "\<not> isSpendable v2 a i"
    using applyDiffs_isSpendable [OF 22 b1, of i] n by simp
  then have f: "\<not> isSpendable w2 a i" by (simp add: isSpendable_keys_cong [OF k2])
  have "entryOf v1 a i \<noteq> None"
    using applyDiffs_touched_entry [OF 21 a4] l by (simp add: p1)
  then have "entryOf v2 a i \<noteq> None"
    using applyDiffs_retains [OF 22] by (rule retains_entry [rotated])
  then have "entryOf w2 a i \<noteq> None" by (simp add: entryOf_keys_cong [OF k2])
  with f show "\<exists>e. entryOf w2 a i = Some e \<and> \<not> spendable e"
    by (auto simp add: isSpendable_def)
qed

lemma pending_replaced_example:
  "ReceiveTransactionPoolUpdate False (onlyDiffs []) [] [created 2]
      (walletWith Map.empty [])
     = Inr (notifySubscribers (walletWith [2 \<mapsto> seen 2 True] [created 2]))
   \<and> ReceiveTransactionPoolUpdate False (onlyDiffs []) [] []
      (notifySubscribers (walletWith [2 \<mapsto> seen 2 True] [created 2]))
     = Inr (notifySubscribers
             ((notifySubscribers (walletWith [2 \<mapsto> seen 2 True] [created 2]))
               \<lparr>keys := [1 \<mapsto> \<lparr>outputs = [2 \<mapsto> seen 2 False]\<rparr>], unconfirmedDiffs := []\<rparr>))
   \<and> unconfirmedDiffs (notifySubscribers (walletWith [2 \<mapsto> seen 2 True] [created 2])) = [created 2]
   \<and> isSpendable (notifySubscribers (walletWith [2 \<mapsto> seen 2 True] [created 2])) 1 2
   \<and> (\<exists>e. entryOf (notifySubscribers
             ((notifySubscribers (walletWith [2 \<mapsto> seen 2 True] [created 2]))
               \<lparr>keys := [1 \<mapsto> \<lparr>outputs = [2 \<mapsto> seen 2 False]\<rparr>], unconfirmedDiffs := []\<rparr>)) 1 2
         = Some e \<and> \<not> spendable e)"
proof -
  let ?w1 = "notifySubscribers (walletWith [2 \<mapsto> seen 2 True] [created 2])"
  let ?w2 = "notifySubscribers (?w1\<lparr>keys := [1 \<mapsto> \<lparr>outputs = [2 \<mapsto> seen 2 False]\<rparr>],
                                     unconfirmedDiffs := []\<rparr>)"
  have c1: "ReceiveTransactionPoolUpdate False (onlyDiffs []) [] [created 2]
      (walletWith Map.empty []) = Inr ?w1"
    by (simp add: run_defs)
  have c2: "ReceiveTransactionPoolUpdate False (onlyDiffs []) [] [] ?w1 = Inr ?w2"
    by (simp add: run_defs)
  have h: "1 \<in> dom (keys (walletWith Map.empty [])) \<and> lastDiffFor 1 2 [created 2] = Some (created 2)
      \<and> Direction (created 2) = DiffApply
      \<and> (\<forall>x\<in>set (SiacoinOutputDiffs (onlyDiffs [])). \<not> touches 1 2 x)"
    by (simp add: walletWith_def touches_def created_def onlyDiffs_def)
  show ?thesis
    using c1 c2 h pending_replaced
      [of False "onlyDiffs []" "[]" "[created 2]" "walletWith Map.empty []" ?w1
          "onlyDiffs []" "[]" ?w2 1 2 "created 2"]
    by simp
qed

text \<open>
  C7. The Pending Diff Set is replaced on every call and the effects of the previous set
  are reverted: an output that an unconfirmed "output created" diff made spendable is
  unspendable again after a call with an empty unconfirmed set and no confirmed diff for
  it. The code replaces the set, but it does not revert every previous set: the loop of
  lines 162-164 takes the diffs back in the order in which they were applied, not in the
  reverse order. With an output created and spent in the pool the second call takes the
  creation back first and the spending last, and leaves the output spendable, although
  no block has confirmed it and nothing is pending; the comment of lines 160-161 has the
  current unconfirmed diffs removed.
\<close>

theorem unwind_in_application_order:
  "entryOf (walletWith Map.empty []) 1 2 = None
   \<and> touches 1 2 (created 2) \<and> Direction (created 2) = DiffApply
   \<and> ReceiveTransactionPoolUpdate False (onlyDiffs []) [] [created 2, spent 2]
      (walletWith Map.empty [])
     = Inr (notifySubscribers (walletWith [2 \<mapsto> seen 2 False] [created 2, spent 2]))
   \<and> ReceiveTransactionPoolUpdate False (onlyDiffs []) [] []
      (notifySubscribers (walletWith [2 \<mapsto> seen 2 False] [created 2, spent 2]))
     = Inr (notifySubscribers
             ((notifySubscribers (walletWith [2 \<mapsto> seen 2 False] [created 2, spent 2]))
               \<lparr>keys := [1 \<mapsto> \<lparr>outputs = [2 \<mapsto> seen 2 True]\<rparr>], unconfirmedDiffs := []\<rparr>))
   \<and> unconfirmedDiffs (notifySubscribers
             ((notifySubscribers (walletWith [2 \<mapsto> seen 2 False] [created 2, spent 2]))
               \<lparr>keys := [1 \<mapsto> \<lparr>outputs = [2 \<mapsto> seen 2 True]\<rparr>], unconfirmedDiffs := []\<rparr>))
     = []
   \<and> isSpendable (notifySubscribers
             ((notifySubscribers (walletWith [2 \<mapsto> seen 2 False] [created 2, spent 2]))
               \<lparr>keys := [1 \<mapsto> \<lparr>outputs = [2 \<mapsto> seen 2 True]\<rparr>], unconfirmedDiffs := []\<rparr>)) 1 2"
  by (simp add: run_defs entryOf_def isSpendable_def touches_def)

section \<open>The order of the steps\<close>

text \<open>
  C1, as the code has it. Every call of \<^verbatim>\<open>ReceiveTransactionPoolUpdate\<close> goes through
  the five steps of the spec in their order: the unwinding of the previous Pending Diff
  Set in the revert direction, the confirmed diffs in the forward direction, the
  replacement of the Pending Diff Set and its diffs in the forward direction, the
  adjustment of the Age Counter, and the notification. A call that returns has gone
  through all of them and has notified once, at its end: the subscribers find the wallet
  as the call leaves it. A call in which the Diff Applier panics stops in that step and
  notifies nobody: a panic in the first or second step leaves the old Pending Diff Set, a
  panic in the third the new one, and each leaves the old Age Counter. A call with empty
  inputs returns and notifies once after a call that returned, and on a wallet with an
  empty Pending Diff Set, where it changes nothing else.
\<close>

theorem reconcile_order:
  "ReceiveTransactionPoolUpdate DEBUG cc txns U w
     = reconcileSteps DEBUG (SiacoinOutputDiffs cc) (length (RevertedBlocks cc))
         (length (AppliedBlocks cc)) U w
   \<and> (ReceiveTransactionPoolUpdate DEBUG cc txns U w = Inr w' \<longrightarrow>
        notified w' = notified w @ [viewOf w']
        \<and> (\<exists>w''. ReceiveTransactionPoolUpdate DEBUG (onlyDiffs []) txns' [] w' = Inr w''
               \<and> notified w'' = notified w' @ [viewOf w'']))
   \<and> (unconfirmedDiffs w = [] \<longrightarrow>
        ReceiveTransactionPoolUpdate DEBUG (onlyDiffs []) txns [] w
          = Inr (notifySubscribers w))
   \<and> (ReceiveTransactionPoolUpdate DEBUG cc txns U w = Inl (e, wp) \<longrightarrow>
        notified wp = notified w \<and> age wp = age w)
   \<and> (applyDiffs DEBUG (unconfirmedDiffs w) DiffRevert w = Inl (e1, p1) \<longrightarrow>
        ReceiveTransactionPoolUpdate DEBUG cc txns U w = Inl (e1, p1)
        \<and> unconfirmedDiffs p1 = unconfirmedDiffs w)
   \<and> (applyDiffs DEBUG (unconfirmedDiffs w) DiffRevert w = Inr w1
        \<and> applyDiffs DEBUG (SiacoinOutputDiffs cc) DiffApply w1 = Inl (e2, p2) \<longrightarrow>
        ReceiveTransactionPoolUpdate DEBUG cc txns U w = Inl (e2, p2)
        \<and> unconfirmedDiffs p2 = unconfirmedDiffs w)
   \<and> (applyDiffs DEBUG (unconfirmedDiffs w) DiffRevert w = Inr w1
        \<and> applyDiffs DEBUG (SiacoinOutputDiffs cc) DiffApply w1 = Inr w2
        \<and> applyDiffs DEBUG U DiffApply (w2\<lparr>unconfirmedDiffs := U\<rparr>) = Inl (e3, p3) \<longrightarrow>
        ReceiveTransactionPoolUpdate DEBUG cc txns U w = Inl (e3, p3)
        \<and> unconfirmedDiffs p3 = U)"
proof (intro conjI impI)
  assume "ReceiveTransactionPoolUpdate DEBUG cc txns U w = Inl (e, wp)"
  then show "notified wp = notified w" and "age wp = age w"
    by (rule ReceiveTransactionPoolUpdate_Inl_fields)+
next
  assume 1: "applyDiffs DEBUG (unconfirmedDiffs w) DiffRevert w = Inl (e1, p1)"
  then show "ReceiveTransactionPoolUpdate DEBUG cc txns U w = Inl (e1, p1)"
    by (simp add: ReceiveTransactionPoolUpdate_def)
  from applyDiffs_Inl [OF 1] show "unconfirmedDiffs p1 = unconfirmedDiffs w" by simp
next
  assume h: "applyDiffs DEBUG (unconfirmedDiffs w) DiffRevert w = Inr w1
        \<and> applyDiffs DEBUG (SiacoinOutputDiffs cc) DiffApply w1 = Inl (e2, p2)"
  then show "ReceiveTransactionPoolUpdate DEBUG cc txns U w = Inl (e2, p2)"
    by (simp add: ReceiveTransactionPoolUpdate_def)
  from h have 1: "applyDiffs DEBUG (unconfirmedDiffs w) DiffRevert w = Inr w1"
    and 2: "applyDiffs DEBUG (SiacoinOutputDiffs cc) DiffApply w1 = Inl (e2, p2)"
    by simp_all
  from applyDiffs_fields [OF 1] applyDiffs_Inl [OF 2]
  show "unconfirmedDiffs p2 = unconfirmedDiffs w" by simp
next
  assume h: "applyDiffs DEBUG (unconfirmedDiffs w) DiffRevert w = Inr w1
        \<and> applyDiffs DEBUG (SiacoinOutputDiffs cc) DiffApply w1 = Inr w2
        \<and> applyDiffs DEBUG U DiffApply (w2\<lparr>unconfirmedDiffs := U\<rparr>) = Inl (e3, p3)"
  then show "ReceiveTransactionPoolUpdate DEBUG cc txns U w = Inl (e3, p3)"
    by (simp add: ReceiveTransactionPoolUpdate_def Let_def)
  from h have 3: "applyDiffs DEBUG U DiffApply (w2\<lparr>unconfirmedDiffs := U\<rparr>) = Inl (e3, p3)"
    by simp
  from applyDiffs_Inl [OF 3] show "unconfirmedDiffs p3 = U" by simp
next
  have "reconcileSteps DEBUG (SiacoinOutputDiffs cc) (length (RevertedBlocks cc))
         (length (AppliedBlocks cc)) U w
     = andThen (applyDiffs DEBUG (unconfirmedDiffs w) DiffRevert w)
         (\<lambda>w1. andThen (applyDiffs DEBUG (SiacoinOutputDiffs cc) DiffApply w1)
         (\<lambda>w2. andThen (applyDiffs DEBUG U DiffApply (w2\<lparr>unconfirmedDiffs := U\<rparr>))
         (\<lambda>w4. Inr (notifySubscribers
                 (w4\<lparr>age := age w4 - of_nat (length (RevertedBlocks cc))
                                 + of_nat (length (AppliedBlocks cc))\<rparr>)))))"
    by (simp add: reconcileSteps_def stepUnwind_def stepConfirm_def stepReoverlay_def
        stepAge_def forEvery_applyDiffs andThen_assoc)
  also have "\<dots> = ReceiveTransactionPoolUpdate DEBUG cc txns U w"
    by (simp add: ReceiveTransactionPoolUpdate_def andThen_def Let_def split: sum.splits)
  finally show "ReceiveTransactionPoolUpdate DEBUG cc txns U w
     = reconcileSteps DEBUG (SiacoinOutputDiffs cc) (length (RevertedBlocks cc))
         (length (AppliedBlocks cc)) U w" by (rule sym)
next
  assume r: "ReceiveTransactionPoolUpdate DEBUG cc txns U w = Inr w'"
  then show "notified w' = notified w @ [viewOf w']"
    by (rule ReceiveTransactionPoolUpdate_notified)
  from ReceiveTransactionPoolUpdate_empty_returns [OF ReceiveTransactionPoolUpdate_entriesPresent [OF r]]
  obtain w'' where e: "ReceiveTransactionPoolUpdate DEBUG (onlyDiffs []) txns' [] w' = Inr w''" ..
  with ReceiveTransactionPoolUpdate_notified [OF e]
  show "\<exists>w''. ReceiveTransactionPoolUpdate DEBUG (onlyDiffs []) txns' [] w' = Inr w''
               \<and> notified w'' = notified w' @ [viewOf w'']" by blast
next
  assume p: "unconfirmedDiffs w = []"
  then have e: "w\<lparr>unconfirmedDiffs := []\<rparr> = w" by (cases w) simp
  have "ReceiveTransactionPoolUpdate DEBUG (onlyDiffs []) txns [] w
      = Inr (notifySubscribers (w\<lparr>unconfirmedDiffs := []\<rparr>))"
    by (simp add: ReceiveTransactionPoolUpdate_def onlyDiffs_def p)
  then show "ReceiveTransactionPoolUpdate DEBUG (onlyDiffs []) txns [] w
          = Inr (notifySubscribers w)"
    by (simp only: e)
qed

theorem reconcile_order_witness:
  "ReceiveTransactionPoolUpdate True (onlyDiffs [created 1]) [] [created 2]
      (walletWith Map.empty [])
     = Inr (notifySubscribers
              (walletWith [1 \<mapsto> seen 1 True, 2 \<mapsto> seen 2 True] [created 2]))
   \<and> notified (notifySubscribers
              (walletWith [1 \<mapsto> seen 1 True, 2 \<mapsto> seen 2 True] [created 2]))
     = [([1 \<mapsto> \<lparr>outputs = [1 \<mapsto> seen 1 True, 2 \<mapsto> seen 2 True]\<rparr>], [created 2], 0)]
   \<and> (\<exists>w''. ReceiveTransactionPoolUpdate True (onlyDiffs []) [] []
               (notifySubscribers
                 (walletWith [1 \<mapsto> seen 1 True, 2 \<mapsto> seen 2 True] [created 2]))
             = Inr w''
           \<and> length (notified w'') = 2)
   \<and> ReceiveTransactionPoolUpdate True (onlyDiffs []) [] [] (walletWith Map.empty [])
     = Inr (notifySubscribers (walletWith Map.empty []))
   \<and> ReceiveTransactionPoolUpdate False
        \<lparr>RevertedBlocks = [], AppliedBlocks = [6], SiacoinOutputDiffs = [created 1]\<rparr> []
        [spent 2] (walletWith Map.empty [])
     = Inl (NilPointerDereference, walletWith [1 \<mapsto> seen 1 True] [spent 2])
   \<and> unconfirmedDiffs (walletWith [1 \<mapsto> seen 1 True] [spent 2]) = [spent 2]
   \<and> age (walletWith [1 \<mapsto> seen 1 True] [spent 2]) = 0
   \<and> notified (walletWith [1 \<mapsto> seen 1 True] [spent 2]) = []"
proof -
  let ?w = "walletWith Map.empty []"
  let ?w' = "notifySubscribers
               (walletWith [1 \<mapsto> seen 1 True, 2 \<mapsto> seen 2 True] [created 2])"
  let ?cc = "\<lparr>RevertedBlocks = [], AppliedBlocks = [6], SiacoinOutputDiffs = [created 1]\<rparr>"
  let ?w2 = "walletWith [1 \<mapsto> seen 1 True] []"
  let ?p = "walletWith [1 \<mapsto> seen 1 True] [spent 2]"
  have r: "ReceiveTransactionPoolUpdate True (onlyDiffs [created 1]) [] [created 2] ?w = Inr ?w'"
    by (simp add: run_defs)
  have p: "unconfirmedDiffs ?w = []" by (simp add: walletWith_def)
  have n: "notified ?w = []" "age ?w = 0" by (simp_all add: walletWith_def)
  have first: "ReceiveTransactionPoolUpdate True (onlyDiffs [created 1]) [] [created 2]
        (walletWith Map.empty []) = Inr ?w'
     \<and> notified ?w'
        = [([1 \<mapsto> \<lparr>outputs = [1 \<mapsto> seen 1 True, 2 \<mapsto> seen 2 True]\<rparr>], [created 2], 0)]
     \<and> (\<exists>w''. ReceiveTransactionPoolUpdate True (onlyDiffs []) [] [] ?w' = Inr w''
           \<and> length (notified w'') = 2)
     \<and> ReceiveTransactionPoolUpdate True (onlyDiffs []) [] [] (walletWith Map.empty [])
        = Inr (notifySubscribers (walletWith Map.empty []))"
  proof -
    note A = reconcile_order
      [of True "onlyDiffs [created 1]" "[]" "[created 2]" ?w ?w' "[]"]
    from A [THEN conjunct2, THEN conjunct1] r
    have two: "notified ?w' = notified ?w @ [viewOf ?w']
        \<and> (\<exists>w''. ReceiveTransactionPoolUpdate True (onlyDiffs []) [] [] ?w' = Inr w''
               \<and> notified w'' = notified ?w' @ [viewOf w''])"
      by blast
    from A [THEN conjunct2, THEN conjunct2, THEN conjunct1] p
    have three: "ReceiveTransactionPoolUpdate True (onlyDiffs []) [] [] ?w
        = Inr (notifySubscribers ?w)"
      by blast
    from two have v: "notified ?w'
        = [([1 \<mapsto> \<lparr>outputs = [1 \<mapsto> seen 1 True, 2 \<mapsto> seen 2 True]\<rparr>], [created 2], 0)]"
      by (simp add: n viewOf_def notifySubscribers_def walletWith_def)
    from two obtain w'' where
      e: "ReceiveTransactionPoolUpdate True (onlyDiffs []) [] [] ?w' = Inr w''"
      and l: "notified w'' = notified ?w' @ [viewOf w'']"
      by blast
    from l v have "length (notified w'') = 2" by simp
    with e have "\<exists>w''. ReceiveTransactionPoolUpdate True (onlyDiffs []) [] [] ?w' = Inr w''
           \<and> length (notified w'') = 2"
      by blast
    with r v three show ?thesis by blast
  qed
  have s1: "applyDiffs False (unconfirmedDiffs ?w) DiffRevert ?w = Inr ?w"
    by (simp add: run_defs)
  have s2: "applyDiffs False (SiacoinOutputDiffs ?cc) DiffApply ?w = Inr ?w2"
    by (simp add: run_defs)
  have s3: "applyDiffs False [spent 2] DiffApply (?w2\<lparr>unconfirmedDiffs := [spent 2]\<rparr>)
          = Inl (NilPointerDereference, ?p)"
    by (simp add: run_defs)
  from reconcile_order
      [of False ?cc "[]" "[spent 2]" ?w _ _ NilPointerDereference ?p _ _ ?w _ _
          ?w2 NilPointerDereference ?p]
  have c: "ReceiveTransactionPoolUpdate False ?cc [] [spent 2] ?w
       = Inl (NilPointerDereference, ?p) \<and> unconfirmedDiffs ?p = [spent 2]"
    using s1 s2 s3 by blast
  from c reconcile_order
      [of False ?cc "[]" "[spent 2]" ?w _ _ NilPointerDereference ?p]
  have "notified ?p = notified ?w \<and> age ?p = age ?w" by blast
  with c n have second: "ReceiveTransactionPoolUpdate False ?cc [] [spent 2] ?w
       = Inl (NilPointerDereference, ?p) \<and> unconfirmedDiffs ?p = [spent 2]
       \<and> age ?p = 0 \<and> notified ?p = []"
    by simp
  from first second show ?thesis by blast
qed

text \<open>
  The claim as the spec has it fails on a call that panics. A call with empty inputs on
  a wallet whose Pending Diff Set has an "output created" diff for an output without
  entry panics in the unwinding and never reaches line 181: nobody is notified.
\<close>

theorem reconcile_order_counterexample:
  "ReceiveTransactionPoolUpdate True (onlyDiffs []) [] [] (walletWith Map.empty [created 1])
     = Inl (Panic ''trying to delete an output that doesn't exist?'',
            walletWith Map.empty [created 1])
   \<and> notified (walletWith Map.empty [created 1]) = []"
  by (simp add: run_defs)

section \<open>The full cycle\<close>




end
